theory Spec2Isabelle
  imports Main
begin

section \<open>Python values\<close>

text \<open>
  A Python \<^verbatim>\<open>str\<close> is a sequence of Unicode code points, each below \<^verbatim>\<open>0x110000\<close>;
  lone surrogates (\<^verbatim>\<open>U+D800\<close> to \<^verbatim>\<open>U+DFFF\<close>) are legal elements of a \<^verbatim>\<open>str\<close>.
  A code point is a natural number here, a string a list of them, and \<open>ascii\<close> turns
  an ASCII literal into such a string.
\<close>

type_synonym pystr = "nat list"

definition ascii :: "string \<Rightarrow> pystr" where
  "ascii s = map of_char s"

definition is_str :: "pystr \<Rightarrow> bool" where
  "is_str s = list_all (\<lambda>c. c < 0x110000) s"

text \<open>
  A float that \<^verbatim>\<open>json.load\<close> produces is the double nearest to a decimal literal, or one
  of the constants \<^verbatim>\<open>NaN\<close>, \<^verbatim>\<open>Infinity\<close>, \<^verbatim>\<open>-Infinity\<close>. The program only ever tests
  such a value for truth, so the literal is kept as it is read: \<open>Dec neg m e\<close> stands
  for the double nearest to \<open>(-1)^neg * m * 10^e\<close>.
\<close>

datatype pyfloat = NaN | Infinity bool | Dec bool nat int

datatype py_value =
    PNone
  | PBool bool
  | PInt int
  | PFloat pyfloat
  | PStr pystr
  | PList "py_value list"
  | PDict "(pystr \<times> py_value) list"

text \<open>The exceptions the program can meet, and the outcome of a call.\<close>

datatype exn = OSError | KeyError | ValueError | TypeError | RecursionError

datatype 'a result = Raise exn | Return 'a

text \<open>
  A double is zero exactly when the literal is at most \<open>2^-1075\<close> in magnitude
  (round to nearest, ties to even: the smallest positive double is \<open>2^-1074\<close>).
\<close>

fun float_is_zero :: "pyfloat \<Rightarrow> bool" where
  "float_is_zero NaN = False"
| "float_is_zero (Infinity neg) = False"
| "float_is_zero (Dec neg m e) =
     (if 0 \<le> e then m = 0 else m * 2 ^ 1075 \<le> 10 ^ nat (- e))"

text \<open>Truth value testing (\<^verbatim>\<open>bool(v)\<close>, the test of \<^verbatim>\<open>if v\<close>, \<^verbatim>\<open>v and ...\<close>, \<^verbatim>\<open>v or ...\<close>).\<close>

fun truthy :: "py_value \<Rightarrow> bool" where
  "truthy PNone = False"
| "truthy (PBool b) = b"
| "truthy (PInt i) = (i \<noteq> 0)"
| "truthy (PFloat f) = (\<not> float_is_zero f)"
| "truthy (PStr s) = (s \<noteq> [])"
| "truthy (PList xs) = (xs \<noteq> [])"
| "truthy (PDict kvs) = (kvs \<noteq> [])"

text \<open>\<^verbatim>\<open>len(v)\<close>: defined on strings, lists and dicts, a \<^verbatim>\<open>TypeError\<close> on the rest.\<close>

fun py_len :: "py_value \<Rightarrow> nat result" where
  "py_len (PStr s) = Return (length s)"
| "py_len (PList xs) = Return (length xs)"
| "py_len (PDict kvs) = Return (length kvs)"
| "py_len PNone = Raise TypeError"
| "py_len (PBool b) = Raise TypeError"
| "py_len (PInt i) = Raise TypeError"
| "py_len (PFloat f) = Raise TypeError"

text \<open>
  A dict keeps one entry for each key, in the order the keys first came;
  \<^verbatim>\<open>d[k] = v\<close> replaces the value of a key that is present.
\<close>

fun dict_set :: "(pystr \<times> py_value) list \<Rightarrow> pystr \<Rightarrow> py_value \<Rightarrow> (pystr \<times> py_value) list" where
  "dict_set [] k v = [(k, v)]"
| "dict_set ((k', v') # kvs) k v =
     (if k' = k then (k, v) # kvs else (k', v') # dict_set kvs k v)"

text \<open>
  \<^verbatim>\<open>v[key]\<close> for a string key: a dict looks the key up (\<^verbatim>\<open>KeyError\<close> when it is not
  there); a list or a string wants an integer index, and \<^verbatim>\<open>None\<close>, booleans and numbers
  are not subscriptable: a \<^verbatim>\<open>TypeError\<close> in each case.
\<close>

fun getitem :: "py_value \<Rightarrow> pystr \<Rightarrow> py_value result" where
  "getitem (PDict kvs) key =
     (case map_of kvs key of None \<Rightarrow> Raise KeyError | Some v \<Rightarrow> Return v)"
| "getitem PNone key = Raise TypeError"
| "getitem (PBool b) key = Raise TypeError"
| "getitem (PInt i) key = Raise TypeError"
| "getitem (PFloat f) key = Raise TypeError"
| "getitem (PStr s) key = Raise TypeError"
| "getitem (PList xs) key = Raise TypeError"

section \<open>The JSON encoder\<close>

text \<open>
  \<^verbatim>\<open>json.dump(accounts, config_file, indent=2)\<close> runs the encoder with its defaults:
  \<^verbatim>\<open>ensure_ascii=True\<close>, the separators \<^verbatim>\<open>','\<close> and \<^verbatim>\<open>': '\<close>. A string is written between
  double quotes; \<^verbatim>\<open>"\<close>, \<^verbatim>\<open>\\<close> and the control characters with a short form get a
  two-character escape, the printable ASCII characters stand for themselves, every other
  code point below \<^verbatim>\<open>0x10000\<close> becomes \<^verbatim>\<open>\uXXXX\<close> (lower-case hex digits) and a code
  point from \<^verbatim>\<open>0x10000\<close> on becomes the two escapes of its UTF-16 surrogate pair.
\<close>

definition hexdigit :: "nat \<Rightarrow> nat" where
  "hexdigit d = (if d < 10 then 48 + d else 87 + d)"

definition hex4 :: "nat \<Rightarrow> pystr" where
  "hex4 n = [hexdigit (n div 4096 mod 16), hexdigit (n div 256 mod 16),
             hexdigit (n div 16 mod 16), hexdigit (n mod 16)]"

definition escape_char :: "nat \<Rightarrow> pystr" where
  "escape_char c =
     (if c = 34 then [92, 34]
      else if c = 92 then [92, 92]
      else if c = 8 then [92, 98]
      else if c = 12 then [92, 102]
      else if c = 10 then [92, 110]
      else if c = 13 then [92, 114]
      else if c = 9 then [92, 116]
      else if 32 \<le> c \<and> c \<le> 126 then [c]
      else if c < 0x10000 then [92, 117] @ hex4 c
      else [92, 117] @ hex4 (0xD800 + (c - 0x10000) div 1024 mod 1024)
         @ [92, 117] @ hex4 (0xDC00 + (c - 0x10000) mod 1024))"

definition encode_basestring_ascii :: "pystr \<Rightarrow> pystr" where
  "encode_basestring_ascii s = [34] @ concat (map escape_char s) @ [34]"

text \<open>
  The program only ever dumps a dict from strings to strings. With \<^verbatim>\<open>indent\<close> given, an
  empty dict is \<^verbatim>\<open>{}\<close>; otherwise every item stands on a line of its own, indented by
  \<^verbatim>\<open>indent\<close> spaces, the items separated by a comma, and the closing brace on a last line.
\<close>

definition encode_item :: "pystr \<times> pystr \<Rightarrow> pystr" where
  "encode_item kv = encode_basestring_ascii (fst kv) @ [58, 32] @ encode_basestring_ascii (snd kv)"

fun encode_items :: "pystr \<Rightarrow> (pystr \<times> pystr) list \<Rightarrow> pystr" where
  "encode_items sep [] = []"
| "encode_items sep [kv] = encode_item kv"
| "encode_items sep (kv # kvs) = encode_item kv @ sep @ encode_items sep kvs"

definition json_dumps :: "(pystr \<times> pystr) list \<Rightarrow> nat \<Rightarrow> pystr" where
  "json_dumps dct indent =
     (if dct = [] then [123, 125]
      else [123] @ (10 # replicate indent 32)
           @ encode_items (44 # 10 # replicate indent 32) dct
           @ [10] @ [125])"

section \<open>The JSON decoder\<close>

text \<open>
  \<^verbatim>\<open>json.load\<close> with its defaults (\<^verbatim>\<open>strict=True\<close>, no hooks). Every failure of the
  decoder is a \<^verbatim>\<open>JSONDecodeError\<close>, a subclass of \<^verbatim>\<open>ValueError\<close>.
\<close>

definition is_ws :: "nat \<Rightarrow> bool" where
  "is_ws c = (c = 32 \<or> c = 9 \<or> c = 10 \<or> c = 13)"

definition skip_ws :: "pystr \<Rightarrow> pystr" where
  "skip_ws s = dropWhile is_ws s"

definition is_digit :: "nat \<Rightarrow> bool" where
  "is_digit c = (48 \<le> c \<and> c \<le> 57)"

definition hexval :: "nat \<Rightarrow> nat option" where
  "hexval c =
     (if 48 \<le> c \<and> c \<le> 57 then Some (c - 48)
      else if 97 \<le> c \<and> c \<le> 102 then Some (c - 87)
      else if 65 \<le> c \<and> c \<le> 70 then Some (c - 55)
      else None)"

text \<open>The four hex digits after \<^verbatim>\<open>\u\<close>: their value and the text after them.\<close>

fun decode_uXXXX :: "pystr \<Rightarrow> (nat \<times> pystr) option" where
  "decode_uXXXX (a # b # c # d # r) =
     (case hexval a of None \<Rightarrow> None | Some x \<Rightarrow>
     (case hexval b of None \<Rightarrow> None | Some y \<Rightarrow>
     (case hexval c of None \<Rightarrow> None | Some z \<Rightarrow>
     (case hexval d of None \<Rightarrow> None | Some w \<Rightarrow>
        Some (((x * 16 + y) * 16 + z) * 16 + w, r)))))"
| "decode_uXXXX r = None"

text \<open>The characters that may follow a backslash, \<^verbatim>\<open>u\<close> apart.\<close>

definition backslash :: "nat \<Rightarrow> nat option" where
  "backslash e =
     (if e = 34 then Some 34
      else if e = 92 then Some 92
      else if e = 47 then Some 47
      else if e = 98 then Some 8
      else if e = 102 then Some 12
      else if e = 110 then Some 10
      else if e = 114 then Some 13
      else if e = 116 then Some 9
      else None)"

definition is_high_surrogate :: "nat \<Rightarrow> bool" where
  "is_high_surrogate u = (0xD800 \<le> u \<and> u \<le> 0xDBFF)"

definition is_low_surrogate :: "nat \<Rightarrow> bool" where
  "is_low_surrogate u = (0xDC00 \<le> u \<and> u \<le> 0xDFFF)"

definition scons :: "nat \<Rightarrow> (pystr \<times> pystr) option \<Rightarrow> (pystr \<times> pystr) option" where
  "scons c r = (case r of None \<Rightarrow> None | Some (s, rest) \<Rightarrow> Some (c # s, rest))"

text \<open>
  The body of a string, from after the opening quote: the decoded string and the text
  after the closing quote, or \<open>None\<close> where the decoder raises (no closing quote, a raw
  control character, a bad escape). A \<^verbatim>\<open>\uXXXX\<close> that is a high surrogate and is directly
  followed by a \<^verbatim>\<open>\uXXXX\<close> that is a low surrogate is read, with it, as the one code point
  of the pair.
\<close>

function scanstring :: "pystr \<Rightarrow> (pystr \<times> pystr) option" where
  "scanstring [] = None"
| "scanstring (c # cs) =
     (if c = 34 then Some ([], cs)
      else if c = 92 then
        (case cs of
           [] \<Rightarrow> None
         | e # r \<Rightarrow>
             if e = 117 then
               (case decode_uXXXX r of
                  None \<Rightarrow> None
                | Some (uni, r1) \<Rightarrow>
                    if is_high_surrogate uni \<and> take 2 r1 = [92, 117] then
                      (case decode_uXXXX (drop 2 r1) of
                         None \<Rightarrow> None
                       | Some (uni2, r2) \<Rightarrow>
                           if is_low_surrogate uni2
                           then scons (0x10000 + (uni - 0xD800) * 1024 + (uni2 - 0xDC00))
                                  (scanstring r2)
                           else scons uni (scanstring r1))
                    else scons uni (scanstring r1))
             else
               (case backslash e of
                  None \<Rightarrow> None
                | Some ch \<Rightarrow> scons ch (scanstring r)))
      else if c < 32 then None
      else scons c (scanstring cs))"
  by pat_completeness auto
termination
  by (relation "measure length")
     (auto elim!: decode_uXXXX.elims split: option.splits dest: arg_cong [where f = length])

text \<open>
  Numbers: an optional minus sign, \<^verbatim>\<open>0\<close> or a digit from 1 to 9 with more digits, then
  an optional fraction (a point and at least one digit) and an optional exponent. A
  literal with neither fraction nor exponent is an \<^verbatim>\<open>int\<close>, every other one a
  \<^verbatim>\<open>float\<close>. A point or an \<^verbatim>\<open>e\<close> that no digit follows is not part of the number.
\<close>

definition digits_val :: "pystr \<Rightarrow> nat" where
  "digits_val ds = foldl (\<lambda>a c. 10 * a + (c - 48)) 0 ds"

definition scan_frac :: "pystr \<Rightarrow> (pystr \<times> pystr) option" where
  "scan_frac s =
     (case s of
        dot # d # r \<Rightarrow>
          if dot = 46 \<and> is_digit d
          then Some (d # takeWhile is_digit r, dropWhile is_digit r)
          else None
      | _ \<Rightarrow> None)"

definition scan_exp :: "pystr \<Rightarrow> (int \<times> pystr) option" where
  "scan_exp s =
     (case s of
        [] \<Rightarrow> None
      | e # r \<Rightarrow>
          if e = 101 \<or> e = 69 then
            (let neg = (r \<noteq> [] \<and> hd r = 45);
                 r1 = (if r \<noteq> [] \<and> (hd r = 43 \<or> hd r = 45) then tl r else r);
                 v = int (digits_val (takeWhile is_digit r1))
             in if r1 \<noteq> [] \<and> is_digit (hd r1)
                then Some (if neg then - v else v, dropWhile is_digit r1)
                else None)
          else None)"

definition number_tail :: "bool \<Rightarrow> pystr \<Rightarrow> pystr \<Rightarrow> py_value \<times> pystr" where
  "number_tail neg ip s =
     (case scan_frac s of
        None \<Rightarrow>
          (case scan_exp s of
             None \<Rightarrow> (PInt (if neg then - int (digits_val ip) else int (digits_val ip)), s)
           | Some (e, s2) \<Rightarrow> (PFloat (Dec neg (digits_val ip) e), s2))
      | Some (fr, s1) \<Rightarrow>
          (case scan_exp s1 of
             None \<Rightarrow> (PFloat (Dec neg (digits_val (ip @ fr)) (- int (length fr))), s1)
           | Some (e, s2) \<Rightarrow> (PFloat (Dec neg (digits_val (ip @ fr)) (e - int (length fr))), s2)))"

definition match_number :: "pystr \<Rightarrow> (py_value \<times> pystr) option" where
  "match_number s =
     (let neg = (s \<noteq> [] \<and> hd s = 45);
          s1 = (if neg then tl s else s)
      in case s1 of
           [] \<Rightarrow> None
         | d # s2 \<Rightarrow>
             if \<not> is_digit d then None
             else if d = 48 then Some (number_tail neg [d] s2)
             else Some (number_tail neg (d # takeWhile is_digit s2) (dropWhile is_digit s2)))"

text \<open>The constants: \<^verbatim>\<open>null\<close>, \<^verbatim>\<open>true\<close>, \<^verbatim>\<open>false\<close> and, as the decoder accepts them by
  default, \<^verbatim>\<open>NaN\<close>, \<^verbatim>\<open>Infinity\<close> and \<^verbatim>\<open>-Infinity\<close>.\<close>

fun strip_prefix :: "pystr \<Rightarrow> pystr \<Rightarrow> pystr option" where
  "strip_prefix [] s = Some s"
| "strip_prefix (p # ps) [] = None"
| "strip_prefix (p # ps) (c # cs) = (if p = c then strip_prefix ps cs else None)"

fun scan_constant :: "(string \<times> py_value) list \<Rightarrow> pystr \<Rightarrow> (py_value \<times> pystr) option" where
  "scan_constant [] s = None"
| "scan_constant ((name, v) # cs) s =
     (case strip_prefix (ascii name) s of
        Some r \<Rightarrow> Some (v, r)
      | None \<Rightarrow> scan_constant cs s)"

definition constants :: "(string \<times> py_value) list" where
  "constants =
     [(''null'', PNone), (''true'', PBool True), (''false'', PBool False),
      (''NaN'', PFloat NaN), (''Infinity'', PFloat (Infinity False)),
      (''-Infinity'', PFloat (Infinity True))]"

text \<open>
  The scanner, as the decoder's \<^verbatim>\<open>scan_once\<close>, \<^verbatim>\<open>JSONObject\<close> and \<^verbatim>\<open>JSONArray\<close>: \<open>Got v r\<close>
  is the value read and the text after it, \<open>Stop\<close> a decoding error. The three functions
  call each other; the first argument bounds the depth of their calls, and \<open>Deep\<close> says
  that the bound was reached. \<open>parse_object\<close> starts where a key is due, \<open>parse_array\<close>
  where an element is due; both carry what they have read so far.
\<close>

datatype 'a scan = Stop | Got 'a pystr | Deep

fun scan_once :: "nat \<Rightarrow> pystr \<Rightarrow> py_value scan"
  and parse_object :: "nat \<Rightarrow> (pystr \<times> py_value) list \<Rightarrow> pystr \<Rightarrow> py_value scan"
  and parse_array :: "nat \<Rightarrow> py_value list \<Rightarrow> pystr \<Rightarrow> py_value scan"
where
  "scan_once 0 s = Deep"
| "scan_once (Suc n) [] = Stop"
| "scan_once (Suc n) (c # cs) =
     (if c = 34 then
        (case scanstring cs of
           None \<Rightarrow> Stop
         | Some (str, r) \<Rightarrow> Got (PStr str) r)
      else if c = 123 then
        (case skip_ws cs of
           [] \<Rightarrow> Stop
         | d # r \<Rightarrow> if d = 125 then Got (PDict []) r else parse_object n [] (d # r))
      else if c = 91 then
        (case skip_ws cs of
           [] \<Rightarrow> Stop
         | d # r \<Rightarrow> if d = 93 then Got (PList []) r else parse_array n [] (d # r))
      else
        (case scan_constant constants (c # cs) of
           Some (v, r) \<Rightarrow> Got v r
         | None \<Rightarrow>
             (case match_number (c # cs) of
                Some (v, r) \<Rightarrow> Got v r
              | None \<Rightarrow> Stop)))"
| "parse_object 0 acc s = Deep"
| "parse_object (Suc n) acc [] = Stop"
| "parse_object (Suc n) acc (q # s1) =
     (if q \<noteq> 34 then Stop
      else
        (case scanstring s1 of
           None \<Rightarrow> Stop
         | Some (key, s2) \<Rightarrow>
             (case skip_ws s2 of
                [] \<Rightarrow> Stop
              | colon # s3 \<Rightarrow>
                  if colon \<noteq> 58 then Stop
                  else
                    (case scan_once n (skip_ws s3) of
                       Stop \<Rightarrow> Stop
                     | Deep \<Rightarrow> Deep
                     | Got v s4 \<Rightarrow>
                         (case skip_ws s4 of
                            [] \<Rightarrow> Stop
                          | d # s5 \<Rightarrow>
                              if d = 125 then Got (PDict (dict_set acc key v)) s5
                              else if d = 44 then parse_object n (dict_set acc key v) (skip_ws s5)
                              else Stop)))))"
| "parse_array 0 acc s = Deep"
| "parse_array (Suc n) acc s =
     (case scan_once n s of
        Stop \<Rightarrow> Stop
      | Deep \<Rightarrow> Deep
      | Got v s1 \<Rightarrow>
          (case skip_ws s1 of
             [] \<Rightarrow> Stop
           | d # s2 \<Rightarrow>
               if d = 93 then Got (PList (acc @ [v])) s2
               else if d = 44 then parse_array n (acc @ [v]) (skip_ws s2)
               else Stop))"

text \<open>
  \<^verbatim>\<open>json.loads\<close>: white space, one value, white space, and nothing more. The depth bound
  it gives the scanner is never reached (\<open>json_loads_depth\<close> below), so the model reads
  every text to its end as an interpreter with an unbounded stack does.
\<close>

definition json_loads :: "pystr \<Rightarrow> py_value result" where
  "json_loads s =
     (case scan_once (Suc (2 * length s)) (skip_ws s) of
        Deep \<Rightarrow> Raise RecursionError
      | Stop \<Rightarrow> Raise ValueError
      | Got v r \<Rightarrow> if skip_ws r = [] then Return v else Raise ValueError)"

section \<open>The platform\<close>

text \<open>
  What the program sees of the operating system is a state: the process environment
  (\<^verbatim>\<open>os.environ\<close>, a dictionary from names to values), the files, the directories known
  to exist, the warnings issued so far, and the home directory that \<^verbatim>\<open>expanduser\<close> gave
  when the module was loaded. A path names one of: no file; something that \<^verbatim>\<open>open\<close> or
  \<^verbatim>\<open>read\<close> refuses with an \<^verbatim>\<open>OSError\<close>; bytes that do not decode (\<^verbatim>\<open>read\<close> raises
  \<^verbatim>\<open>UnicodeDecodeError\<close>, a \<^verbatim>\<open>ValueError\<close>); or a text. \<open>refused\<close> holds the paths at which
  the system refuses to create a directory or to open a file for writing. Paths follow
  the POSIX conventions.
\<close>

datatype file_node = NoFile | Unreadable | Undecodable | Regular pystr

record world =
  environ :: "pystr \<rightharpoonup> pystr"
  files :: "pystr \<Rightarrow> file_node"
  dirs :: "pystr set"
  refused :: "pystr set"
  warnings :: "pystr list"
  home :: pystr

text \<open>\<^verbatim>\<open>os.path.dirname\<close>: the path up to its last slash, without trailing slashes
  unless it consists of slashes only.\<close>

definition dirname :: "pystr \<Rightarrow> pystr" where
  "dirname p =
     (let head = rev (dropWhile (\<lambda>c. c \<noteq> 47) (rev p))
      in if head \<noteq> [] \<and> head \<noteq> replicate (length head) 47
         then rev (dropWhile (\<lambda>c. c = 47) (rev head))
         else head)"

text \<open>\<^verbatim>\<open>os.path.join\<close> of two components.\<close>

definition path_join :: "pystr \<Rightarrow> pystr \<Rightarrow> pystr" where
  "path_join a b =
     (if b \<noteq> [] \<and> hd b = 47 then b
      else if a = [] \<or> last a = 47 then a @ b
      else a @ [47] @ b)"

text \<open>
  \<^verbatim>\<open>os.makedirs(name, exist_ok=True)\<close>: the empty name is always an error
  (\<^verbatim>\<open>FileNotFoundError\<close>); otherwise the directory exists afterwards unless the system
  refuses.
\<close>

definition os_makedirs :: "pystr \<Rightarrow> world \<Rightarrow> unit result \<times> world" where
  "os_makedirs name w =
     (if name = [] \<or> name \<in> refused w then (Raise OSError, w)
      else (Return (), w\<lparr>dirs := insert name (dirs w)\<rparr>))"

text \<open>\<^verbatim>\<open>open(filename, 'r')\<close>, and reading the whole text of the file it gives.\<close>

definition open_r :: "pystr \<Rightarrow> world \<Rightarrow> file_node result" where
  "open_r filename w =
     (if filename \<in> dirs w then Raise OSError
      else case files w filename of
             NoFile \<Rightarrow> Raise OSError
           | Unreadable \<Rightarrow> Raise OSError
           | Undecodable \<Rightarrow> Return Undecodable
           | Regular text \<Rightarrow> Return (Regular text))"

fun file_read :: "file_node \<Rightarrow> pystr result" where
  "file_read (Regular text) = Return text"
| "file_read Undecodable = Raise ValueError"
| "file_read NoFile = Raise OSError"
| "file_read Unreadable = Raise OSError"

definition json_load :: "file_node \<Rightarrow> py_value result" where
  "json_load file =
     (case file_read file of
        Raise e \<Rightarrow> Raise e
      | Return text \<Rightarrow> json_loads text)"

text \<open>\<^verbatim>\<open>open(filename, 'w')\<close> empties the file, or creates it; \<^verbatim>\<open>json.dump\<close> then
  writes the text.\<close>

definition open_w :: "pystr \<Rightarrow> world \<Rightarrow> unit result \<times> world" where
  "open_w filename w =
     (if filename \<in> refused w \<or> filename \<in> dirs w then (Raise OSError, w)
      else (Return (), w\<lparr>files := (files w)(filename := Regular [])\<rparr>))"

definition json_dump :: "(pystr \<times> pystr) list \<Rightarrow> pystr \<Rightarrow> nat \<Rightarrow> world \<Rightarrow> world" where
  "json_dump obj filename indent w =
     w\<lparr>files := (files w)(filename := Regular (json_dumps obj indent))\<rparr>"

text \<open>\<^verbatim>\<open>warnings.warn(message)\<close> issues a warning and returns.\<close>

definition warnings_warn :: "pystr \<Rightarrow> world \<Rightarrow> world" where
  "warnings_warn message w = w\<lparr>warnings := warnings w @ [message]\<rparr>"

section \<open>The module \<^verbatim>\<open>credentials\<close>\<close>

text \<open>
  Every function takes the state of the platform; a function that changes it returns the
  new state beside its outcome, also when it raises. A default argument of the source is
  an explicit argument here.
\<close>

definition DEFAULT_QIRC_FILE :: "world \<Rightarrow> pystr" where
  "DEFAULT_QIRC_FILE w = path_join (path_join (home w) (ascii ''.quantuminspire'')) (ascii ''qirc'')"

text \<open>The \<^verbatim>\<open>try\<close> block of \<^verbatim>\<open>read_account\<close>, then the function with its \<^verbatim>\<open>except\<close> clause
  and its last line.\<close>

definition read_account_try :: "pystr \<Rightarrow> world \<Rightarrow> py_value result" where
  "read_account_try filename w =
     (case open_r filename w of
        Raise e \<Rightarrow> Raise e
      | Return file \<Rightarrow>
          (case json_load file of
             Raise e \<Rightarrow> Raise e
           | Return accounts \<Rightarrow> getitem accounts (ascii ''token'')))"

definition read_account :: "pystr \<Rightarrow> world \<Rightarrow> py_value result" where
  "read_account filename w =
     (case (case read_account_try filename w of
              Raise e \<Rightarrow>
                if e = OSError \<or> e = KeyError \<or> e = ValueError then Return PNone else Raise e
            | Return token \<Rightarrow> Return token) of
        Raise e \<Rightarrow> Raise e
      | Return token \<Rightarrow>
          if truthy token then
            (case py_len token of
               Raise e \<Rightarrow> Raise e
             | Return n \<Rightarrow> if n \<noteq> 0 then Return token else Return PNone)
          else Return PNone)"

definition load_account :: "pystr \<Rightarrow> world \<Rightarrow> py_value result" where
  "load_account filename w =
     (let env_token = (case environ w (ascii ''QI_TOKEN'') of
                         None \<Rightarrow> PNone
                       | Some t \<Rightarrow> PStr t)
      in if truthy env_token then Return env_token else read_account filename w)"

definition save_account :: "pystr \<Rightarrow> pystr \<Rightarrow> world \<Rightarrow> unit result \<times> world" where
  "save_account token filename w =
     (let accounts = [(ascii ''token'', token)]
      in case os_makedirs (dirname filename) w of
           (Raise e, w1) \<Rightarrow> (Raise e, w1)
         | (Return u, w1) \<Rightarrow>
             (case open_w filename w1 of
                (Raise e, w2) \<Rightarrow> (Raise e, w2)
              | (Return u', w2) \<Rightarrow> (Return (), json_dump accounts filename 2 w2)))"

definition store_account :: "pystr \<Rightarrow> pystr \<Rightarrow> bool \<Rightarrow> world \<Rightarrow> unit result \<times> world" where
  "store_account token filename overwrite w =
     (case read_account filename w of
        Raise e \<Rightarrow> (Raise e, w)
      | Return stored_token \<Rightarrow>
          if truthy stored_token \<and> stored_token \<noteq> PStr token \<and> \<not> overwrite then
            (Return (),
             warnings_warn (ascii ''Token already present. Set overwrite=True to overwrite.'') w)
          else save_account token filename w)"

definition delete_account :: "pystr \<Rightarrow> pystr \<Rightarrow> world \<Rightarrow> unit result \<times> world" where
  "delete_account token filename w =
     (case read_account filename w of
        Raise e \<Rightarrow> (Raise e, w)
      | Return stored_token \<Rightarrow>
          if stored_token = PStr token then save_account [] filename w
          else (Return (), w))"

definition enable_account :: "pystr \<Rightarrow> world \<Rightarrow> unit result \<times> world" where
  "enable_account token w =
     (Return (), w\<lparr>environ := (environ w)(ascii ''QI_TOKEN'' \<mapsto> token)\<rparr>)"

text \<open>The descriptors of \<^verbatim>\<open>coreapi.auth\<close>: their constructors store what they are given.\<close>

record token_authentication =
  auth_token :: py_value
  auth_scheme :: pystr
  auth_domain :: "pystr option"

record basic_authentication =
  auth_username :: pystr
  auth_password :: pystr
  basic_domain :: "pystr option"

definition TokenAuthentication :: "py_value \<Rightarrow> pystr \<Rightarrow> token_authentication" where
  "TokenAuthentication tok sch = \<lparr>auth_token = tok, auth_scheme = sch, auth_domain = None\<rparr>"

definition BasicAuthentication :: "pystr \<Rightarrow> pystr \<Rightarrow> basic_authentication" where
  "BasicAuthentication username password =
     \<lparr>auth_username = username, auth_password = password, basic_domain = None\<rparr>"

definition get_token_authentication :: "pystr option \<Rightarrow> world \<Rightarrow> token_authentication result" where
  "get_token_authentication token w =
     (let given = (case token of None \<Rightarrow> PNone | Some t \<Rightarrow> PStr t)
      in case (if \<not> truthy given then load_account (DEFAULT_QIRC_FILE w) w else Return given) of
           Raise e \<Rightarrow> Raise e
         | Return tok \<Rightarrow> Return (TokenAuthentication tok (ascii ''token'')))"

definition get_basic_authentication :: "pystr \<Rightarrow> pystr \<Rightarrow> basic_authentication" where
  "get_basic_authentication email password = BasicAuthentication email password"

section \<open>Auxiliary notions of the verification\<close>

text \<open>
  The decoder reads a high surrogate that is directly followed by a low surrogate as one
  code point. \<open>pair_free s\<close> says that the string \<open>s\<close> has no such two elements next to
  each other: every string without lone surrogates is pair free, and so is every string
  that an encoder of UTF-8 or UTF-16 accepts.
\<close>

fun pair_free :: "pystr \<Rightarrow> bool" where
  "pair_free [] = True"
| "pair_free [c] = True"
| "pair_free (c # d # s) = (\<not> (is_high_surrogate c \<and> is_low_surrogate d) \<and> pair_free (d # s))"


text \<open>\<open>joins t\<close>: the text \<open>t\<close>, standing after the escape of a high surrogate, starts with
  an escape that the decoder would not leave alone.\<close>

definition joins :: "pystr \<Rightarrow> bool" where
  "joins t = (take 2 t = [92, 117] \<and>
     (case decode_uXXXX (drop 2 t) of None \<Rightarrow> True | Some (u, r) \<Rightarrow> is_low_surrogate u))"


text \<open>A platform with nothing on it, and the path of the resource file there.\<close>

definition fresh :: world where
  "fresh = \<lparr>environ = Map.empty, files = (\<lambda>p. NoFile), dirs = {}, refused = {},
            warnings = [], home = ascii ''/home/user''\<rparr>"

definition qirc :: pystr where
  "qirc = ascii ''/home/user/.quantuminspire/qirc''"



text \<open>Tokens for the examples: a high surrogate followed by a low one, and two plain ones.\<close>

definition surrogates :: pystr where
  "surrogates = [0xD800, 0xDC00]"

definition abc123 :: pystr where
  "abc123 = ascii ''abc123''"

definition xyz :: pystr where
  "xyz = ascii ''xyz''"

text \<open>The platform after \<^verbatim>\<open>enable_account(T)\<close>, and the fresh platform after
  \<^verbatim>\<open>save_account(T, qirc)\<close>.\<close>

definition session :: "pystr \<Rightarrow> world \<Rightarrow> world" where
  "session T w = snd (enable_account T w)"

definition stored :: "pystr \<Rightarrow> world" where
  "stored T = snd (save_account T qirc fresh)"

text \<open>The message of the warning of \<^verbatim>\<open>store_account\<close>.\<close>

definition warning_message :: pystr where
  "warning_message = ascii ''Token already present. Set overwrite=True to overwrite.''"

text \<open>The fresh platform with one more file.\<close>

definition with_file :: "file_node \<Rightarrow> world" where
  "with_file node = fresh\<lparr>files := (files fresh)(qirc := node)\<rparr>"

text \<open>The document that \<^verbatim>\<open>save_account\<close> writes for a token, spelt out.\<close>

definition document :: "pystr \<Rightarrow> pystr" where
  "document T =
     ascii ''{'' @ [10] @ ascii ''  '' @ encode_basestring_ascii (ascii ''token'')
     @ ascii '': '' @ encode_basestring_ascii T @ [10] @ ascii ''}''"

section \<open>The decoder reads what the encoder writes\<close>

lemma hexval_hexdigit: "d < 16 \<Longrightarrow> hexval (hexdigit d) = Some d"
  by (auto simp: hexval_def hexdigit_def)

lemma hex4_value:
  fixes n :: nat
  assumes "n < 65536"
  shows "((n div 4096 mod 16 * 16 + n div 256 mod 16) * 16 + n div 16 mod 16) * 16 + n mod 16 = n"
proof -
  define a where "a = n div 16"
  define b where "b = a div 16"
  define c where "c = b div 16"
  have b: "n div 256 = b"
    unfolding b_def a_def by (simp add: div_mult2_eq [symmetric])
  have c: "n div 4096 = c"
    unfolding c_def b_def a_def by (simp add: div_mult2_eq [symmetric])
  have "c < 16"
    using assms c by simp
  then have c16: "c mod 16 = c" by simp
  have 1: "c * 16 + b mod 16 = b"
    unfolding c_def by simp
  have 2: "b * 16 + a mod 16 = a"
    unfolding b_def by simp
  have 3: "a * 16 + n mod 16 = n"
    unfolding a_def by simp
  show ?thesis
    unfolding b c a_def [symmetric] c16 1 2 3 ..
qed

lemma decode_digits:
  "x < 16 \<Longrightarrow> y < 16 \<Longrightarrow> z < 16 \<Longrightarrow> w < 16 \<Longrightarrow>
   decode_uXXXX ([hexdigit x, hexdigit y, hexdigit z, hexdigit w] @ r)
     = Some (((x * 16 + y) * 16 + z) * 16 + w, r)"
  by (simp add: hexval_hexdigit)

lemma decode_hex4: "n < 65536 \<Longrightarrow> decode_uXXXX (hex4 n @ r) = Some (n, r)"
proof -
  assume n: "n < 65536"
  have "decode_uXXXX (hex4 n @ r)
      = Some (((n div 4096 mod 16 * 16 + n div 256 mod 16) * 16 + n div 16 mod 16) * 16 + n mod 16, r)"
    unfolding hex4_def by (rule decode_digits) simp_all
  then show ?thesis
    by (simp only: hex4_value [OF n])
qed

lemma scanstring_u:
  assumes "u < 65536" and "is_high_surrogate u \<Longrightarrow> \<not> joins t"
  shows "scanstring (92 # 117 # hex4 u @ t) = scons u (scanstring t)"
proof (cases "is_high_surrogate u \<and> take 2 t = [92, 117]")
  case True
  with assms(2) obtain v r where "decode_uXXXX (drop 2 t) = Some (v, r)" "\<not> is_low_surrogate v"
    by (auto simp: joins_def split: option.splits)
  with True show ?thesis
    by (simp add: decode_hex4 [OF assms(1)])
next
  case False
  then show ?thesis
    by (auto simp add: decode_hex4 [OF assms(1)])
qed

lemma scanstring_pair:
  assumes "65536 \<le> c" and "c < 1114112"
  shows "scanstring (92 # 117 # hex4 (55296 + (c - 65536) div 1024 mod 1024)
           @ 92 # 117 # hex4 (56320 + (c - 65536) mod 1024) @ t) = scons c (scanstring t)"
proof -
  define m where "m = c - 65536"
  have m: "m < 1048576" using assms by (simp add: m_def)
  then have hi: "m div 1024 mod 1024 = m div 1024" by simp
  have h: "55296 + m div 1024 < 65536" "is_high_surrogate (55296 + m div 1024)"
    using m by (simp_all add: is_high_surrogate_def)
  have l: "56320 + m mod 1024 < 65536" "is_low_surrogate (56320 + m mod 1024)"
    by (simp_all add: is_low_surrogate_def)
  have c: "65536 + m div 1024 * 1024 + m mod 1024 = c"
    using assms by (simp add: m_def)
  show ?thesis
    unfolding m_def [symmetric] hi
    using h l c by (simp add: decode_hex4)
qed

lemma escape_char_cases:
  obtains (short) e where "escape_char c = [92, e]" "backslash e = Some c" "e \<noteq> 117"
    | (plain) "escape_char c = [c]" "c \<noteq> 34" "c \<noteq> 92" "32 \<le> c"
    | (u) "escape_char c = 92 # 117 # hex4 c" "c < 65536"
    | (pair) "escape_char c = 92 # 117 # hex4 (55296 + (c - 65536) div 1024 mod 1024)
           @ 92 # 117 # hex4 (56320 + (c - 65536) mod 1024)" "65536 \<le> c"
proof (cases "c = 34 \<or> c = 92 \<or> c = 8 \<or> c = 12 \<or> c = 10 \<or> c = 13 \<or> c = 9")
  case True
  then show ?thesis
    by (elim disjE) (rule short [of "if c = 34 then 34 else if c = 92 then 92 else if c = 8 then 98
        else if c = 12 then 102 else if c = 10 then 110 else if c = 13 then 114 else 116"];
      simp add: escape_char_def backslash_def)+
next
  case False
  note ns = this
  show ?thesis
  proof (cases "32 \<le> c \<and> c \<le> 126")
    case True
    with ns show ?thesis
      by (intro plain) (simp_all add: escape_char_def)
  next
    case False
    note np = this
    show ?thesis
    proof (cases "c < 65536")
      case True
      with ns np show ?thesis
        by (intro u) (simp_all add: escape_char_def)
    next
      case False
      with ns np show ?thesis
        by (intro pair) (simp_all add: escape_char_def)
    qed
  qed
qed

lemma scanstring_escape_char:
  assumes "c < 1114112" and "is_high_surrogate c \<Longrightarrow> \<not> joins t"
  shows "scanstring (escape_char c @ t) = scons c (scanstring t)"
proof (cases c rule: escape_char_cases)
  case (short e)
  then show ?thesis by simp
next
  case plain
  then show ?thesis by simp
next
  case u
  then show ?thesis
    using scanstring_u [OF u(2) assms(2)] by simp
next
  case pair
  then show ?thesis
    using scanstring_pair [OF pair(2) assms(1)] by simp
qed

lemma escape_char_not_joins:
  assumes "d < 1114112" and "\<not> is_low_surrogate d"
  shows "\<not> joins (escape_char d @ t)"
proof (cases d rule: escape_char_cases)
  case (short e)
  then show ?thesis by (simp add: joins_def)
next
  case plain
  then show ?thesis by (simp add: joins_def)
next
  case u
  then show ?thesis
    using assms(2) by (simp add: joins_def decode_hex4)
next
  case pair
  define m where "m = d - 65536"
  have m: "m < 1048576" using assms pair by (simp add: m_def)
  then have hi: "m div 1024 mod 1024 = m div 1024" by simp
  have h: "55296 + m div 1024 < 65536" "\<not> is_low_surrogate (55296 + m div 1024)"
    using m by (simp_all add: is_low_surrogate_def)
  from pair(1) have "escape_char d = 92 # 117 # hex4 (55296 + m div 1024)
           @ 92 # 117 # hex4 (56320 + m mod 1024)"
    by (simp add: m_def [symmetric] hi)
  then show ?thesis
    using h by (simp add: joins_def decode_hex4)
qed

lemma quote_not_joins: "\<not> joins (34 # t)"
  by (simp add: joins_def)

lemma scanstring_escaped:
  "is_str s \<Longrightarrow> pair_free s \<Longrightarrow>
   scanstring (concat (map escape_char s) @ 34 # rest) = Some (s, rest)"
proof (induction s rule: pair_free.induct)
  case 1
  show ?case by simp
next
  case (2 c)
  then have "c < 1114112" by (simp add: is_str_def)
  then show ?case
    using scanstring_escape_char [of c "34 # rest"] quote_not_joins [of rest]
    by (simp add: scons_def)
next
  case (3 c d s)
  let ?t = "concat (map escape_char s) @ 34 # rest"
  from 3 have c: "c < 1114112" and d: "d < 1114112" and s: "is_str (d # s)"
    by (simp_all add: is_str_def)
  from 3 have pf: "pair_free (d # s)" and nl: "is_high_surrogate c \<Longrightarrow> \<not> is_low_surrogate d"
    by auto
  have nj: "is_high_surrogate c \<Longrightarrow> \<not> joins (escape_char d @ ?t)"
    using escape_char_not_joins [OF d] nl by blast
  have "scanstring (escape_char c @ escape_char d @ ?t) = scons c (scanstring (escape_char d @ ?t))"
    using scanstring_escape_char [OF c nj] .
  moreover have "scanstring (escape_char d @ ?t) = Some (d # s, rest)"
    using "3.IH" [OF s pf] by simp
  ultimately show ?case
    by (simp add: scons_def)
qed

lemmas fuel_numeral =
  scan_once.simps(2,3) [of "pred_numeral k" for k, folded numeral_eq_Suc]
  parse_object.simps(2,3) [of "pred_numeral k" for k, folded numeral_eq_Suc]
  parse_array.simps(2) [of "pred_numeral k" for k, folded numeral_eq_Suc]
  replicate_Suc [of "pred_numeral k" for k, folded numeral_eq_Suc]

lemmas eval_defs = json_loads_def json_dumps_def encode_item_def encode_basestring_ascii_def
  escape_char_def hex4_def hexdigit_def hexval_def backslash_def skip_ws_def is_ws_def
  is_high_surrogate_def is_low_surrogate_def scons_def ascii_def fuel_numeral

lemma skip_ws_simps:
  "skip_ws [] = []"
  "skip_ws (32 # s) = skip_ws s"
  "skip_ws (10 # s) = skip_ws s"
  "skip_ws (34 # s) = 34 # s"
  "skip_ws (58 # s) = 58 # s"
  "skip_ws (125 # s) = 125 # s"
  by (simp_all add: skip_ws_def is_ws_def)

lemma parse_object_item:
  assumes "is_str k" "pair_free k" "is_str v" "pair_free v"
  shows "parse_object (Suc (Suc n)) acc
           (encode_item (k, v) @ 10 # 125 # rest)
         = Got (PDict (dict_set acc k (PStr v))) rest"
proof -
  have k: "scanstring (concat (map escape_char k) @ 34 # t) = Some (k, t)" for t
    using assms(1,2) by (rule scanstring_escaped)
  have v: "scanstring (concat (map escape_char v) @ 34 # t) = Some (v, t)" for t
    using assms(3,4) by (rule scanstring_escaped)
  show ?thesis
    by (simp add: encode_item_def encode_basestring_ascii_def k v skip_ws_simps)
qed

lemma scan_once_object:
  "scan_once (Suc n) (123 # 10 # 32 # 32 # 34 # cs) = parse_object n [] (34 # cs)"
  by (simp add: skip_ws_simps)

lemma json_loads_dumps:
  assumes "is_str k" "pair_free k" "is_str v" "pair_free v"
  shows "json_loads (json_dumps [(k, v)] 2) = Return (PDict [(k, PStr v)])"
proof -
  let ?body = "encode_item (k, v) @ [10, 125]"
  let ?doc = "123 # 10 # 32 # 32 # ?body"
  have doc: "json_dumps [(k, v)] 2 = ?doc"
    by (simp add: json_dumps_def numeral_2_eq_2)
  obtain cs where body: "?body = 34 # cs"
    by (simp add: encode_item_def encode_basestring_ascii_def)
  define n where "n = 2 * length cs + 8"
  have fuel: "Suc (2 * length (123 # 10 # 32 # 32 # 34 # cs)) = Suc (Suc (Suc n))"
    unfolding n_def by simp
  have "parse_object (Suc (Suc n)) [] (encode_item (k, v) @ 10 # 125 # []) = Got (PDict [(k, PStr v)]) []"
    using parse_object_item [OF assms, of n "[]" "[]"] by simp
  then have "parse_object (Suc (Suc n)) [] (34 # cs) = Got (PDict [(k, PStr v)]) []"
    using body by simp
  then have "scan_once (Suc (Suc (Suc n))) (123 # 10 # 32 # 32 # 34 # cs) = Got (PDict [(k, PStr v)]) []"
    by (simp only: scan_once_object)
  then have "scan_once (Suc (2 * length ?doc)) ?doc = Got (PDict [(k, PStr v)]) []"
    by (simp only: body fuel)
  moreover have "skip_ws ?doc = ?doc"
    by (simp add: skip_ws_def is_ws_def)
  ultimately show ?thesis
    unfolding doc json_loads_def by (simp add: skip_ws_simps)
qed

section \<open>The scanner never reaches its depth bound\<close>

text \<open>Every value the scanner reads takes at least one character, so a depth of twice the
  length of the text, and one more, is enough for every text.\<close>

lemma skip_ws_length: "length (skip_ws s) \<le> length s"
  by (simp add: skip_ws_def length_dropWhile_le)

lemma scons_Some: "scons c r = Some (v, rest) \<Longrightarrow> \<exists>v'. r = Some (v', rest)"
  by (auto simp: scons_def split: option.splits)

lemma decode_uXXXX_Some: "decode_uXXXX s = Some (u, r) \<Longrightarrow> length s = length r + 4"
  by (cases s rule: decode_uXXXX.cases) (auto split: option.splits)

lemma scanstring_length: "scanstring s = Some (v, r) \<Longrightarrow> length r < length s"
proof (induction s arbitrary: v rule: scanstring.induct)
  case 1
  then show ?case by simp
next
  case (2 c cs)
  show ?case
  proof (cases "c = 34")
    case True
    with 2(6) show ?thesis by simp
  next
    case n34: False
    show ?thesis
    proof (cases "c = 92")
      case False
      with n34 2(6) obtain v' where "32 \<le> c" "scanstring cs = Some (v', r)"
        by (auto split: if_splits dest: scons_Some)
      with 2(5) [OF n34 False] show ?thesis
        by fastforce
    next
      case True
      with n34 2(6) obtain e t where cs: "cs = e # t"
        by (cases cs) auto
      show ?thesis
      proof (cases "e = 117")
        case False
        with True n34 cs 2(6) obtain ch v' where "backslash e = Some ch" "scanstring t = Some (v', r)"
          by (auto split: option.splits dest: scons_Some)
        with 2(4) [OF n34 True cs False] show ?thesis
          using cs by fastforce
      next
        case u: True
        with True n34 cs 2(6) obtain uni r1 where d: "decode_uXXXX t = Some (uni, r1)"
          by (auto split: option.splits)
        note l1 = decode_uXXXX_Some [OF d]
        show ?thesis
        proof (cases "is_high_surrogate uni \<and> take 2 r1 = [92, 117]")
          case False
          with True n34 cs u d 2(6) obtain v' where "scanstring r1 = Some (v', r)"
            by (auto dest: scons_Some)
          with 2(3) [OF n34 True cs u d refl False] l1 cs show ?thesis
            by fastforce
        next
          case hi: True
          with True n34 cs u d 2(6) obtain uni2 r2 where d2: "decode_uXXXX (drop 2 r1) = Some (uni2, r2)"
            by (auto split: option.splits)
          note l2 = decode_uXXXX_Some [OF d2]
          show ?thesis
          proof (cases "is_low_surrogate uni2")
            case low: True
            with True n34 cs u d hi d2 2(6) obtain v' where "scanstring r2 = Some (v', r)"
              by (auto dest: scons_Some)
            with 2(1) [OF n34 True cs u d refl hi d2 refl low] l1 l2 cs
            show ?thesis by fastforce
          next
            case nl: False
            with True n34 cs u d hi d2 2(6) obtain v' where "scanstring r1 = Some (v', r)"
              by (auto dest: scons_Some)
            with 2(2) [OF n34 True cs u d refl hi d2 refl nl] l1 cs
            show ?thesis by fastforce
          qed
        qed
      qed
    qed
  qed
qed

lemma scan_frac_length: "scan_frac s = Some (fr, r) \<Longrightarrow> length r < length s"
  using length_dropWhile_le [of is_digit "tl (tl s)"]
  by (auto simp: scan_frac_def split: list.splits if_splits)

lemma scan_exp_length: "scan_exp s = Some (e, r) \<Longrightarrow> length r < length s"
proof -
  assume a: "scan_exp s = Some (e, r)"
  then obtain c t where s: "s = c # t"
    by (cases s) (auto simp: scan_exp_def)
  have "r = dropWhile is_digit (tl t) \<or> r = dropWhile is_digit t"
    using a unfolding s scan_exp_def Let_def by (auto split: if_splits)
  moreover have "length (dropWhile is_digit (tl t)) \<le> length (tl t)"
    "length (dropWhile is_digit t) \<le> length t"
    by (rule length_dropWhile_le)+
  ultimately show ?thesis
    unfolding s by auto
qed

lemma number_tail_length: "number_tail neg ip s = (v, r) \<Longrightarrow> length r \<le> length s"
  unfolding number_tail_def
  by (auto split: option.splits dest!: scan_frac_length scan_exp_length)

lemma match_number_length: "match_number s = Some (v, r) \<Longrightarrow> length r < length s"
proof -
  assume a: "match_number s = Some (v, r)"
  define s1 where "s1 = (if s \<noteq> [] \<and> hd s = 45 then tl s else s)"
  have l1: "length s1 \<le> length s"
    by (simp add: s1_def)
  from a obtain d s2 where s1: "s1 = d # s2"
    unfolding match_number_def Let_def s1_def by (auto split: list.splits)
  obtain neg ip s3 where n: "number_tail neg ip s3 = (v, r)" and l3: "length s3 \<le> length s2"
  proof (cases "d = 48")
    case True
    with a s1 have "number_tail (s \<noteq> [] \<and> hd s = 45) [d] s2 = (v, r)"
      unfolding match_number_def Let_def s1_def by (auto split: if_splits)
    then show ?thesis
      using that by blast
  next
    case False
    with a s1 have "number_tail (s \<noteq> [] \<and> hd s = 45) (d # takeWhile is_digit s2)
        (dropWhile is_digit s2) = (v, r)"
      unfolding match_number_def Let_def s1_def by (auto split: if_splits)
    then show ?thesis
      using that length_dropWhile_le [of is_digit s2] by blast
  qed
  from number_tail_length [OF n] l1 l3 show ?thesis
    unfolding s1 by simp
qed

lemma strip_prefix_length: "strip_prefix p s = Some r \<Longrightarrow> length s = length p + length r"
  by (induction p s rule: strip_prefix.induct) (auto split: if_splits)

lemma scan_constant_length:
  "scan_constant cs s = Some (v, r) \<Longrightarrow> list_all (\<lambda>c. fst c \<noteq> []) cs \<Longrightarrow> length r < length s"
  by (induction cs s rule: scan_constant.induct)
    (auto split: option.splits dest!: strip_prefix_length simp: ascii_def)

lemma constants_length: "scan_constant constants s = Some (v, r) \<Longrightarrow> length r < length s"
  by (erule scan_constant_length) (simp add: constants_def)

lemma skip_ws_Cons: "skip_ws s = d # t \<Longrightarrow> length t < length s"
  using skip_ws_length [of s] by simp

lemma scan_consumes:
  "(\<forall>s v r. scan_once n s = Got v r \<longrightarrow> length r < length s)
   \<and> (\<forall>acc s v r. parse_object n acc s = Got v r \<longrightarrow> length r < length s)
   \<and> (\<forall>xs s v r. parse_array n xs s = Got v r \<longrightarrow> length r < length s)"
proof (induction n)
  case 0
  show ?case by simp
next
  case (Suc n)
  then have so: "\<And>s v r. scan_once n s = Got v r \<Longrightarrow> length r < length s"
    and po: "\<And>acc s v r. parse_object n acc s = Got v r \<Longrightarrow> length r < length s"
    and pa: "\<And>xs s v r. parse_array n xs s = Got v r \<Longrightarrow> length r < length s"
    by blast+
  have so': "length r < length s" if "scan_once n (skip_ws s) = Got v r" for s v r
    using so [OF that] skip_ws_length [of s] by simp
  have po': "length r < length s" if "parse_object n acc (skip_ws s) = Got v r" for acc s v r
    using po [OF that] skip_ws_length [of s] by simp
  have pa': "length r < length s" if "parse_array n xs (skip_ws s) = Got v r" for xs s v r
    using pa [OF that] skip_ws_length [of s] by simp
  have 1: "length r < length s" if "scan_once (Suc n) s = Got v r" for s v r
  proof (cases s)
    case Nil
    with that show ?thesis by simp
  next
    case (Cons c cs)
    consider (str) "c = 34" | (obj) "c = 123" | (arr) "c = 91"
      | (other) "c \<noteq> 34" "c \<noteq> 123" "c \<noteq> 91"
      by blast
    then show ?thesis
    proof cases
      case str
      with that Cons show ?thesis
        by (auto split: option.splits dest!: scanstring_length)
    next
      case obj
      with that Cons show ?thesis
        by (auto split: list.splits if_splits dest!: skip_ws_Cons po)
    next
      case arr
      with that Cons show ?thesis
        by (auto split: list.splits if_splits dest!: skip_ws_Cons pa)
    next
      case other
      with that Cons show ?thesis
        by (auto split: option.splits dest!: constants_length match_number_length)
    qed
  qed
  have 2: "length r < length s" if "parse_object (Suc n) acc s = Got v r" for acc s v r
  proof (cases s)
    case Nil
    with that show ?thesis by simp
  next
    case (Cons q s1)
    with that obtain key s2 s3 v' s4 d s5 where q: "q = 34"
      and k: "scanstring s1 = Some (key, s2)" and c: "skip_ws s2 = 58 # s3"
      and x: "scan_once n (skip_ws s3) = Got v' s4" and e: "skip_ws s4 = d # s5"
      and f: "d = 125 \<and> r = s5 \<or> parse_object n (dict_set acc key v') (skip_ws s5) = Got v r"
      by (auto split: if_splits option.splits list.splits scan.splits)
    have "length r \<le> length s5"
      using f po' by (auto simp: less_imp_le)
    with scanstring_length [OF k] skip_ws_Cons [OF c] so' [OF x] skip_ws_Cons [OF e]
    show ?thesis
      unfolding Cons by simp
  qed
  have 3: "length r < length s" if "parse_array (Suc n) xs s = Got v r" for xs s v r
  proof -
    from that obtain v' s1 d s2 where x: "scan_once n s = Got v' s1" and e: "skip_ws s1 = d # s2"
      and f: "d = 93 \<and> r = s2 \<or> parse_array n (xs @ [v']) (skip_ws s2) = Got v r"
      by (auto split: if_splits list.splits scan.splits)
    have "length r \<le> length s2"
      using f pa' by (auto simp: less_imp_le)
    with so [OF x] skip_ws_Cons [OF e] show ?thesis
      by simp
  qed
  show ?case
    using 1 2 3 by blast
qed

lemma scan_depth:
  "(\<forall>s. 2 * length s < n \<longrightarrow> scan_once n s \<noteq> Deep)
   \<and> (\<forall>acc s. 2 * length s < n \<longrightarrow> parse_object n acc s \<noteq> Deep)
   \<and> (\<forall>xs s. 2 * length s + 1 < n \<longrightarrow> parse_array n xs s \<noteq> Deep)"
proof (induction n)
  case 0
  show ?case by simp
next
  case (Suc n)
  then have so: "\<And>s. 2 * length s < n \<Longrightarrow> scan_once n s \<noteq> Deep"
    and po: "\<And>acc s. 2 * length s < n \<Longrightarrow> parse_object n acc s \<noteq> Deep"
    and pa: "\<And>xs s. 2 * length s + 1 < n \<Longrightarrow> parse_array n xs s \<noteq> Deep"
    by blast+
  note consumes = scan_consumes [of n, THEN conjunct1, rule_format]
  have 1: "scan_once (Suc n) s \<noteq> Deep" if "2 * length s < Suc n" for s
  proof (cases s)
    case Nil
    then show ?thesis by simp
  next
    case (Cons c cs)
    have "parse_object n [] (d # r) \<noteq> Deep" if "skip_ws cs = d # r" for d r
      using skip_ws_length [of cs] that \<open>2 * length s < Suc n\<close> Cons by (intro po) simp
    moreover have "parse_array n [] (d # r) \<noteq> Deep" if "skip_ws cs = d # r" for d r
      using skip_ws_length [of cs] that \<open>2 * length s < Suc n\<close> Cons by (intro pa) simp
    ultimately show ?thesis
      unfolding Cons by (auto split: option.splits list.splits)
  qed
  have 2: "parse_object (Suc n) acc s \<noteq> Deep" if b: "2 * length s < Suc n" for acc s
  proof (cases s)
    case Nil
    then show ?thesis by simp
  next
    case (Cons q s1)
    have a: "scan_once n (skip_ws s3) \<noteq> Deep"
      if "scanstring s1 = Some (key, s2)" "skip_ws s2 = colon # s3" for key s2 colon s3
      using scanstring_length [OF that(1)] skip_ws_Cons [OF that(2)] skip_ws_length [of s3] b Cons
      by (intro so) simp
    have c: "parse_object n acc' (skip_ws s5) \<noteq> Deep"
      if "scanstring s1 = Some (key, s2)" "skip_ws s2 = colon # s3"
        "scan_once n (skip_ws s3) = Got v s4" "skip_ws s4 = d # s5" for key s2 colon s3 v s4 d s5 acc'
      using scanstring_length [OF that(1)] skip_ws_Cons [OF that(2)] skip_ws_length [of s3]
        consumes [OF that(3)] skip_ws_Cons [OF that(4)] skip_ws_length [of s5] b Cons
      by (intro po) simp
    show ?thesis
      unfolding Cons using a c
      by (auto split: option.splits list.splits scan.splits)
  qed
  have 3: "parse_array (Suc n) xs s \<noteq> Deep" if b: "2 * length s + 1 < Suc n" for xs s
  proof -
    have a: "scan_once n s \<noteq> Deep"
      using b by (intro so) simp
    have c: "parse_array n xs' (skip_ws s2) \<noteq> Deep"
      if "scan_once n s = Got v s1" "skip_ws s1 = d # s2" for v s1 d s2 xs'
      using consumes [OF that(1)] skip_ws_Cons [OF that(2)] skip_ws_length [of s2] b
      by (intro pa) simp
    show ?thesis
      using a c by (auto split: list.splits scan.splits)
  qed
  show ?case
    using 1 2 3 by blast
qed

lemma json_loads_depth: "json_loads s \<noteq> Raise RecursionError"
proof -
  have "2 * length (skip_ws s) < Suc (2 * length s)"
    using skip_ws_length [of s] by simp
  then have "scan_once (Suc (2 * length s)) (skip_ws s) \<noteq> Deep"
    using scan_depth [of "Suc (2 * length s)"] by blast
  then show ?thesis
    unfolding json_loads_def by (auto split: scan.splits)
qed

lemma json_loads_cases:
  obtains (invalid) "json_loads s = Raise ValueError" | (valid) v where "json_loads s = Return v"
  using json_loads_depth [of s]
  unfolding json_loads_def by (auto split: scan.splits if_splits)

section \<open>Saving and reading\<close>

lemma token_key: "is_str (ascii ''token'')" "pair_free (ascii ''token'')"
  by (simp_all add: ascii_def is_str_def is_high_surrogate_def)

lemma save_account_eq:
  "save_account token filename w =
     (if dirname filename = [] \<or> dirname filename \<in> refused w then (Raise OSError, w)
      else if filename \<in> refused w \<or> filename = dirname filename \<or> filename \<in> dirs w
      then (Raise OSError, w\<lparr>dirs := insert (dirname filename) (dirs w)\<rparr>)
      else (Return (),
            w\<lparr>dirs := insert (dirname filename) (dirs w),
              files := (files w)(filename := Regular (json_dumps [(ascii ''token'', token)] 2))\<rparr>))"
  by (simp add: save_account_def os_makedirs_def open_w_def json_dump_def)

lemma save_account_Return:
  assumes "save_account token filename w = (Return u, w')"
  shows "w' = w\<lparr>dirs := insert (dirname filename) (dirs w),
              files := (files w)(filename := Regular (json_dumps [(ascii ''token'', token)] 2))\<rparr>"
    and "dirname filename \<noteq> []" and "dirname filename \<notin> refused w" and "filename \<notin> refused w"
    and "filename \<noteq> dirname filename" and "filename \<notin> dirs w"
  using assms unfolding save_account_eq by (auto split: if_splits)

lemma read_account_Regular:
  assumes "files w filename = Regular doc" and "filename \<notin> dirs w"
    and "json_loads doc = Return (PDict [(ascii ''token'', PStr v)])"
  shows "read_account filename w = Return (if v = [] then PNone else PStr v)"
  using assms by (simp add: read_account_def read_account_try_def open_r_def json_load_def)

lemma read_account_dumped:
  assumes "files w filename = Regular (json_dumps [(ascii ''token'', token)] 2)"
    and "filename \<notin> dirs w" and "is_str token" and "pair_free token"
  shows "read_account filename w = Return (if token = [] then PNone else PStr token)"
  using read_account_Regular [OF assms(1,2) json_loads_dumps [OF token_key assms(3,4)]] .

lemma read_after_save:
  assumes "save_account token filename w = (Return u, w')" and "is_str token" and "pair_free token"
  shows "read_account filename w' = Return (if token = [] then PNone else PStr token)"
proof -
  note s = save_account_Return [OF assms(1)]
  have "files w' filename = Regular (json_dumps [(ascii ''token'', token)] 2)"
    unfolding s(1) by simp
  moreover have "filename \<notin> dirs w'"
    unfolding s(1) using s(5,6) by simp
  ultimately show ?thesis
    using assms(2,3) by (rule read_account_dumped)
qed

lemmas world_defs = read_account_def read_account_try_def open_r_def json_load_def
  save_account_eq dirname_def fresh_def qirc_def

lemma qirc_dirname: "dirname qirc = ascii ''/home/user/.quantuminspire''"
  by (simp add: dirname_def qirc_def ascii_def)

lemma save_fresh:
  "save_account token qirc fresh =
     (Return (), fresh\<lparr>dirs := {dirname qirc},
        files := (files fresh)(qirc := Regular (json_dumps [(ascii ''token'', token)] 2))\<rparr>)"
  unfolding save_account_eq by (simp add: qirc_dirname) (simp add: fresh_def qirc_def ascii_def)

lemma abc123_str: "is_str abc123" "pair_free abc123" "abc123 \<noteq> []"
  by (simp_all add: abc123_def ascii_def is_str_def is_high_surrogate_def)


section \<open>What the decoder and \<^verbatim>\<open>read_account\<close> can raise\<close>

text \<open>Some texts and what the decoder makes of them.\<close>

lemmas number_defs = constants_def match_number_def number_tail_def scan_frac_def scan_exp_def
  is_digit_def digits_val_def

lemma loads_values:
  "json_loads (ascii ''[]'') = Return (PList [])"
  "json_loads (ascii '' [1, 2] '') = Return (PList [PInt 1, PInt 2])"
  "json_loads (ascii ''[1,]'') = Raise ValueError"
  "json_loads (ascii ''null'') = Return PNone"
  "json_loads (ascii ''nul'') = Raise ValueError"
  "json_loads (ascii ''true'') = Return (PBool True)"
  "json_loads (ascii ''-0'') = Return (PInt 0)"
  "json_loads (ascii ''01'') = Raise ValueError"
  "json_loads (ascii ''1.5e3'') = Return (PFloat (Dec False 15 2))"
  "json_loads (ascii ''1.'') = Raise ValueError"
  "json_loads (ascii ''-Infinity'') = Return (PFloat (Infinity True))"
  "json_loads (ascii ''{''  @ [34] @ ascii ''token'' @ [34] @ ascii '':7}'')
     = Return (PDict [(ascii ''token'', PInt 7)])"
  by (simp_all add: eval_defs number_defs)

lemma getitem_raises: "getitem v k = Raise e \<Longrightarrow> e = KeyError \<or> e = TypeError"
  by (cases v) (auto split: option.splits)

lemma py_len_raises: "py_len v = Raise e \<Longrightarrow> e = TypeError"
  by (cases v) auto

lemma read_account_try_raises:
  assumes "read_account_try p w = Raise e"
  shows "e = OSError \<or> e = ValueError \<or> e = KeyError \<or> e = TypeError"
proof (cases "open_r p w")
  case (Raise e')
  with assms show ?thesis
    by (auto simp: read_account_try_def open_r_def split: if_splits file_node.splits)
next
  case (Return node)
  show ?thesis
  proof (cases "json_load node")
    case (Raise e')
    with assms Return have e: "e = e'"
      by (simp add: read_account_try_def)
    show ?thesis
    proof (cases "file_read node")
      case r: (Raise e'')
      with Raise show ?thesis
        unfolding e by (cases node) (auto simp: json_load_def)
    next
      case r: (Return doc)
      with Raise have "json_loads doc = Raise e'"
        by (simp add: json_load_def)
      then show ?thesis
        unfolding e by (cases doc rule: json_loads_cases) auto
    qed
  next
    case r: (Return accounts)
    with assms Return show ?thesis
      by (auto simp: read_account_try_def dest: getitem_raises)
  qed
qed

text \<open>
  The only exception that leaves \<^verbatim>\<open>read_account\<close> is a \<^verbatim>\<open>TypeError\<close>: the \<^verbatim>\<open>except\<close> clause
  does not name it. It comes from a file whose text is JSON but whose top level is not an
  object, and from a token that is \<^verbatim>\<open>true\<close> or a number other than zero.
\<close>

lemma read_account_raises:
  assumes "read_account p w = Raise e"
  shows "e = TypeError"
proof (cases "read_account_try p w")
  case (Raise e')
  with assms read_account_try_raises [OF Raise] show ?thesis
    by (auto simp: read_account_def split: if_splits)
next
  case (Return tok)
  with assms show ?thesis
    by (auto simp: read_account_def split: if_splits result.splits dest: py_len_raises)
qed

lemma read_account_type_error_if:
  assumes "files w p = Regular doc" and "p \<notin> dirs w" and "json_loads doc = Return v"
    and "getitem v (ascii ''token'') = Raise TypeError
         \<or> (\<exists>t. getitem v (ascii ''token'') = Return t \<and> truthy t \<and> py_len t = Raise TypeError)"
  shows "read_account p w = Raise TypeError"
  using assms by (auto simp: read_account_def read_account_try_def open_r_def json_load_def)

lemma read_account_type_error:
  "read_account qirc (with_file (Regular (ascii ''[]''))) = Raise TypeError"
  "read_account qirc (with_file (Regular (ascii ''{''  @ [34] @ ascii ''token'' @ [34] @ ascii '':7}'')))
     = Raise TypeError"
proof -
  have q: "files (with_file node) qirc = node" "qirc \<notin> dirs (with_file node)" for node
    by (simp_all add: with_file_def fresh_def)
  show "read_account qirc (with_file (Regular (ascii ''[]''))) = Raise TypeError"
    by (rule read_account_type_error_if [OF q loads_values(1)]) simp
  show "read_account qirc (with_file (Regular (ascii ''{''  @ [34] @ ascii ''token'' @ [34] @ ascii '':7}'')))
     = Raise TypeError"
    by (rule read_account_type_error_if [OF q loads_values(12)]) simp
qed

section \<open>The claims\<close>

text \<open>
  C1 (as amended). Let \<open>T\<close> be a token in which no high surrogate is directly followed by
  a low surrogate, and let \<^verbatim>\<open>save_account(T, p)\<close> return normally. Then \<^verbatim>\<open>read_account(p)\<close>
  returns \<open>T\<close> when \<open>T\<close> is not empty, and \<^verbatim>\<open>None\<close> when \<open>T\<close> is the empty string.
\<close>

theorem save_then_read:
  assumes "is_str T" and "pair_free T" and "save_account T p w = (Return (), w')"
  shows "read_account p w' = (if T = [] then Return PNone else Return (PStr T))"
  using read_after_save [OF assms(3,1,2)] by simp


text \<open>It holds for the token \<^verbatim>\<open>abc123\<close> and for the empty token on the fresh platform.\<close>

theorem save_then_read_witness:
  "is_str abc123 \<and> pair_free abc123
   \<and> save_account abc123 qirc fresh = (Return (), snd (save_account abc123 qirc fresh))
   \<and> read_account qirc (snd (save_account abc123 qirc fresh)) = Return (PStr abc123)
   \<and> is_str [] \<and> pair_free []
   \<and> save_account [] qirc fresh = (Return (), snd (save_account [] qirc fresh))
   \<and> read_account qirc (snd (save_account [] qirc fresh)) = Return PNone"
proof -
  have a: "save_account abc123 qirc fresh = (Return (), snd (save_account abc123 qirc fresh))"
    by (simp add: save_fresh)
  have e: "save_account [] qirc fresh = (Return (), snd (save_account [] qirc fresh))"
    by (simp add: save_fresh)
  have n: "is_str []" "pair_free []"
    by (simp_all add: is_str_def)
  show ?thesis
    using save_then_read [OF abc123_str(1,2) a] save_then_read [OF n e] abc123_str a e n
    by simp
qed


text \<open>
  The claim as it was stated fails for the token of the two code points \<^verbatim>\<open>U+D800\<close>,
  \<^verbatim>\<open>U+DC00\<close>: the file gets the escapes \<^verbatim>\<open>\ud800\udc00\<close>, which the decoder reads as the
  one code point \<^verbatim>\<open>U+10000\<close>.
\<close>

theorem save_then_read_counterexample:
  "is_str surrogates \<and> surrogates \<noteq> []
   \<and> fst (save_account surrogates qirc fresh) = Return ()
   \<and> read_account qirc (snd (save_account surrogates qirc fresh)) = Return (PStr [0x10000])
   \<and> read_account qirc (snd (save_account surrogates qirc fresh)) \<noteq> Return (PStr surrogates)"
  by (simp add: save_fresh read_account_def read_account_try_def open_r_def json_load_def
      surrogates_def is_str_def qirc_dirname eval_defs)
    (simp add: fresh_def qirc_def ascii_def)

lemma read_stored:
  "is_str T \<Longrightarrow> pair_free T \<Longrightarrow>
   read_account qirc (stored T) = Return (if T = [] then PNone else PStr T)"
  unfolding stored_def by (rule read_after_save [of T qirc fresh "()"]) (simp_all add: save_fresh)

lemma read_fresh: "read_account p fresh = Return PNone"
  by (simp add: read_account_def read_account_try_def open_r_def fresh_def)

lemma xyz_str: "is_str xyz" "pair_free xyz" "xyz \<noteq> []" "xyz \<noteq> abc123"
  by (simp_all add: xyz_def abc123_def ascii_def is_str_def is_high_surrogate_def)

lemma read_account_session: "read_account p (session T w) = read_account p w"
  by (simp add: session_def enable_account_def read_account_def read_account_try_def open_r_def)




text \<open>
  C9. When the environment variable is set to the empty string, \<^verbatim>\<open>load_account(p)\<close> is
  \<^verbatim>\<open>read_account(p)\<close>: the empty value never wins over the file.
\<close>

theorem load_account_empty_session:
  assumes "environ w (ascii ''QI_TOKEN'') = Some []"
  shows "load_account p w = read_account p w"
  using assms by (simp add: load_account_def)

text \<open>
  With \<^verbatim>\<open>abc123\<close> in the file and the variable set to the empty string,
  \<^verbatim>\<open>load_account\<close> returns \<^verbatim>\<open>abc123\<close>.
\<close>

theorem load_account_empty_session_witness:
  "environ (session [] (stored abc123)) (ascii ''QI_TOKEN'') = Some []
   \<and> load_account qirc (session [] (stored abc123)) = read_account qirc (session [] (stored abc123))
   \<and> load_account qirc (session [] (stored abc123)) = Return (PStr abc123)"
proof -
  have e: "environ (session [] (stored abc123)) (ascii ''QI_TOKEN'') = Some []"
    by (simp add: session_def enable_account_def)
  have r: "read_account qirc (stored abc123) = Return (PStr abc123)"
    using read_stored [OF abc123_str(1,2)] abc123_str(3) by simp
  show ?thesis
    using load_account_empty_session [OF e, of qirc] e r read_account_session [of qirc "[]" "stored abc123"]
    by simp
qed

lemma read_account_cong:
  "files w' = files w \<Longrightarrow> dirs w' = dirs w \<Longrightarrow> read_account p w' = read_account p w"
  by (simp add: read_account_def read_account_try_def open_r_def)

lemma save_account_warnings: "warnings (snd (save_account T p w)) = warnings w"
  unfolding save_account_eq by simp

text \<open>
  C3. Let the token read from the file be \<open>T1\<close>, not empty, and let \<open>T2\<close> differ from it.
  Then \<^verbatim>\<open>store_account(T2, p, overwrite=False)\<close> returns normally, the platform is as
  before but for one more warning, with the message of the source; so no file has
  changed and the token read from the file is still \<open>T1\<close>.
\<close>

theorem store_account_protects:
  assumes "read_account p w = Return (PStr T1)" and "T1 \<noteq> []" and "T1 \<noteq> T2"
  shows "store_account T2 p False w = (Return (), w\<lparr>warnings := warnings w @ [warning_message]\<rparr>)
    \<and> files (snd (store_account T2 p False w)) = files w
    \<and> read_account p (snd (store_account T2 p False w)) = Return (PStr T1)"
proof -
  have s: "store_account T2 p False w = (Return (), w\<lparr>warnings := warnings w @ [warning_message]\<rparr>)"
    using assms by (simp add: store_account_def warnings_warn_def warning_message_def)
  have "read_account p (snd (store_account T2 p False w)) = Return (PStr T1)"
    unfolding s using assms(1) read_account_cong [of "w\<lparr>warnings := warnings w @ [warning_message]\<rparr>" w p]
    by simp
  then show ?thesis
    using s by simp
qed

text \<open>
  With \<^verbatim>\<open>abc123\<close> in the file, storing \<^verbatim>\<open>xyz\<close> leaves the files alone and issues the
  one warning.
\<close>

theorem store_account_protects_witness:
  "read_account qirc (stored abc123) = Return (PStr abc123) \<and> abc123 \<noteq> [] \<and> abc123 \<noteq> xyz
   \<and> fst (store_account xyz qirc False (stored abc123)) = Return ()
   \<and> warnings (snd (store_account xyz qirc False (stored abc123))) = [warning_message]
   \<and> files (snd (store_account xyz qirc False (stored abc123))) = files (stored abc123)
   \<and> read_account qirc (snd (store_account xyz qirc False (stored abc123))) = Return (PStr abc123)"
proof -
  have r: "read_account qirc (stored abc123) = Return (PStr abc123)"
    using read_stored [OF abc123_str(1,2)] abc123_str(3) by simp
  have n: "abc123 \<noteq> xyz"
    using xyz_str(4) by simp
  have w: "warnings (stored abc123) = []"
    unfolding stored_def save_account_warnings by (simp add: fresh_def)
  note t = store_account_protects [OF r abc123_str(3) n]
  have 1: "fst (store_account xyz qirc False (stored abc123)) = Return ()"
    and 2: "warnings (snd (store_account xyz qirc False (stored abc123))) = [warning_message]"
    using t w by simp_all
  have 3: "files (snd (store_account xyz qirc False (stored abc123))) = files (stored abc123)"
    and 4: "read_account qirc (snd (store_account xyz qirc False (stored abc123))) = Return (PStr abc123)"
    using t by blast+
  show ?thesis
    using r abc123_str(3) n 1 2 3 4 by blast
qed

text \<open>
  C10. When the token read from the file is absent, empty or \<open>T\<close> itself,
  \<^verbatim>\<open>store_account(T, p, overwrite=False)\<close> is \<^verbatim>\<open>save_account(T, p)\<close>: it issues no
  warning and, where it returns normally, the file holds the document of \<open>T\<close>.
\<close>

theorem store_account_proceeds:
  assumes "read_account p w = Return PNone \<or> read_account p w = Return (PStr [])
           \<or> read_account p w = Return (PStr T)"
  shows "store_account T p False w = save_account T p w
    \<and> warnings (snd (store_account T p False w)) = warnings w
    \<and> (fst (store_account T p False w) = Return () \<longrightarrow>
         files (snd (store_account T p False w)) p = Regular (json_dumps [(ascii ''token'', T)] 2))"
proof -
  have s: "store_account T p False w = save_account T p w"
    using assms by (auto simp: store_account_def)
  have "files (snd (save_account T p w)) p = Regular (json_dumps [(ascii ''token'', T)] 2)"
    if "fst (save_account T p w) = Return ()"
    using that unfolding save_account_eq by (auto split: if_splits)
  then show ?thesis
    unfolding s using save_account_warnings [of T p w] by simp
qed

text \<open>
  Storing \<^verbatim>\<open>abc123\<close> again over itself, and storing it on the fresh platform: both
  write the file, without a warning.
\<close>

theorem store_account_proceeds_witness:
  "read_account qirc (stored abc123) = Return (PStr abc123)
   \<and> store_account abc123 qirc False (stored abc123) = save_account abc123 qirc (stored abc123)
   \<and> fst (store_account abc123 qirc False (stored abc123)) = Return ()
   \<and> warnings (snd (store_account abc123 qirc False (stored abc123))) = []
   \<and> files (snd (store_account abc123 qirc False (stored abc123))) qirc
       = Regular (json_dumps [(ascii ''token'', abc123)] 2)
   \<and> read_account qirc fresh = Return PNone
   \<and> store_account abc123 qirc False fresh = save_account abc123 qirc fresh
   \<and> fst (store_account abc123 qirc False fresh) = Return ()"
proof -
  have r: "read_account qirc (stored abc123) = Return (PStr abc123)"
    using read_stored [OF abc123_str(1,2)] abc123_str(3) by simp
  have w: "warnings (stored abc123) = []"
    unfolding stored_def save_account_warnings by (simp add: fresh_def)
  have f: "fst (save_account abc123 qirc (stored abc123)) = Return ()"
    unfolding stored_def save_fresh save_account_eq
    by (simp add: qirc_dirname) (simp add: fresh_def qirc_def ascii_def)
  have g: "fst (save_account abc123 qirc fresh) = Return ()"
    by (simp add: save_fresh)
  have 1: "read_account qirc (stored abc123) = Return PNone
      \<or> read_account qirc (stored abc123) = Return (PStr [])
      \<or> read_account qirc (stored abc123) = Return (PStr abc123)"
    using r by simp
  have 2: "read_account qirc fresh = Return PNone \<or> read_account qirc fresh = Return (PStr [])
      \<or> read_account qirc fresh = Return (PStr abc123)"
    by (simp add: read_fresh)
  note t = store_account_proceeds [OF 1]
  have a: "store_account abc123 qirc False (stored abc123) = save_account abc123 qirc (stored abc123)"
    using t by blast
  have b: "fst (store_account abc123 qirc False (stored abc123)) = Return ()"
    unfolding a by (rule f)
  have c: "warnings (snd (store_account abc123 qirc False (stored abc123))) = []"
    unfolding a save_account_warnings by (rule w)
  have d: "files (snd (store_account abc123 qirc False (stored abc123))) qirc
       = Regular (json_dumps [(ascii ''token'', abc123)] 2)"
    using t b by blast
  have e: "store_account abc123 qirc False fresh = save_account abc123 qirc fresh"
    using store_account_proceeds [OF 2] by blast
  have h: "fst (store_account abc123 qirc False fresh) = Return ()"
    unfolding e by (rule g)
  show ?thesis
    using r a b c d e h read_fresh [of qirc] by blast
qed




lemma document_dumps: "json_dumps [(ascii ''token'', T)] 2 = document T"
  by (simp add: json_dumps_def document_def encode_item_def numeral_2_eq_2 ascii_def)

lemma save_account_again:
  assumes "save_account T p w = (Return u, w1)"
  shows "save_account T' p w1
         = (Return (), w1\<lparr>files := (files w1)(p := Regular (json_dumps [(ascii ''token'', T')] 2))\<rparr>)"
proof -
  note s = save_account_Return [OF assms]
  have "dirs w1 = insert (dirname p) (dirs w)" "refused w1 = refused w"
    unfolding s(1) by simp_all
  then show ?thesis
    unfolding save_account_eq [of T' p w1] using s(2-6)
    by (simp add: insert_absorb)
qed

text \<open>
  C7. Where \<^verbatim>\<open>save_account(T, p)\<close> returns normally, the whole content of the file \<open>p\<close>
  is the text of an opening brace, a line feed, two spaces, the key \<^verbatim>\<open>"token"\<close>, a colon
  and a space, the string literal of \<open>T\<close>, a line feed and the closing brace; the
  directory of \<open>p\<close> exists, and no other file has changed. For a token without a high
  surrogate directly before a low one the decoder reads the text back as the object with
  the one key \<^verbatim>\<open>token\<close> and the value \<open>T\<close>.
\<close>

theorem save_account_document:
  assumes "save_account T p w = (Return (), w')"
  shows "files w' p = Regular (document T) \<and> dirname p \<in> dirs w'
    \<and> (\<forall>q. q \<noteq> p \<longrightarrow> files w' q = files w q)
    \<and> (is_str T \<and> pair_free T \<longrightarrow>
         json_loads (document T) = Return (PDict [(ascii ''token'', PStr T)]))"
proof -
  note s = save_account_Return [OF assms]
  have "json_loads (document T) = Return (PDict [(ascii ''token'', PStr T)])"
    if "is_str T" "pair_free T"
    using json_loads_dumps [OF token_key that] by (simp add: document_dumps)
  then show ?thesis
    unfolding s(1) by (simp add: document_dumps)
qed

text \<open>The file of the token \<^verbatim>\<open>abc123\<close>, character by character.\<close>

theorem save_account_document_witness:
  "save_account abc123 qirc fresh = (Return (), stored abc123)
   \<and> files (stored abc123) qirc
       = Regular (ascii ''{'' @ [10] @ ascii ''  '' @ [34] @ ascii ''token'' @ [34] @ ascii '': ''
                  @ [34] @ ascii ''abc123'' @ [34] @ [10] @ ascii ''}'')
   \<and> dirname qirc \<in> dirs (stored abc123)
   \<and> files (stored abc123) (ascii ''/etc/passwd'') = files fresh (ascii ''/etc/passwd'')
   \<and> json_loads (document abc123) = Return (PDict [(ascii ''token'', PStr abc123)])"
proof -
  have s: "save_account abc123 qirc fresh = (Return (), stored abc123)"
    by (simp add: stored_def save_fresh)
  have d: "document abc123 = ascii ''{'' @ [10] @ ascii ''  '' @ [34] @ ascii ''token'' @ [34] @ ascii '': ''
                  @ [34] @ ascii ''abc123'' @ [34] @ [10] @ ascii ''}''"
    by (simp add: document_def encode_basestring_ascii_def escape_char_def abc123_def ascii_def)
  have n: "ascii ''/etc/passwd'' \<noteq> qirc"
    by (simp add: qirc_def ascii_def)
  show ?thesis
    using save_account_document [OF s] s d n abc123_str by simp
qed

text \<open>
  C6. After \<^verbatim>\<open>store_account(T1, p)\<close>, with either value of \<^verbatim>\<open>overwrite\<close>, let
  \<^verbatim>\<open>store_account(T2, p, overwrite=True)\<close> return normally. Then the file \<open>p\<close> holds the
  document of \<open>T2\<close>; and \<^verbatim>\<open>read_account(p)\<close> returns \<open>T2\<close>, when \<open>T2\<close> is not empty and has
  no high surrogate directly before a low one.
\<close>

theorem store_account_overwrite:
  assumes "store_account T1 p ow w = (Return (), w1)"
    and "store_account T2 p True w1 = (Return (), w2)"
  shows "files w2 p = Regular (document T2)
    \<and> (is_str T2 \<and> pair_free T2 \<and> T2 \<noteq> [] \<longrightarrow> read_account p w2 = Return (PStr T2))"
proof -
  from assms(2) have s: "save_account T2 p w1 = (Return (), w2)"
    by (auto simp: store_account_def split: result.splits)
  have "read_account p w2 = Return (PStr T2)" if "is_str T2" "pair_free T2" "T2 \<noteq> []"
    using read_after_save [OF s that(1,2)] that(3) by simp
  then show ?thesis
    using save_account_document [OF s] by blast
qed

text \<open>Storing \<^verbatim>\<open>abc123\<close> on the fresh platform and then \<^verbatim>\<open>xyz\<close> over it.\<close>

theorem store_account_overwrite_witness:
  "store_account abc123 qirc False fresh = (Return (), stored abc123)
   \<and> fst (store_account xyz qirc True (stored abc123)) = Return ()
   \<and> files (snd (store_account xyz qirc True (stored abc123))) qirc = Regular (document xyz)
   \<and> read_account qirc (snd (store_account xyz qirc True (stored abc123))) = Return (PStr xyz)"
proof -
  have 1: "store_account abc123 qirc False fresh = (Return (), stored abc123)"
    by (simp add: store_account_def read_fresh stored_def save_fresh)
  have r: "read_account qirc (stored abc123) = Return (PStr abc123)"
    using read_stored [OF abc123_str(1,2)] abc123_str(3) by simp
  have a: "save_account abc123 qirc fresh = (Return (), stored abc123)"
    by (simp add: stored_def save_fresh)
  have 2: "store_account xyz qirc True (stored abc123)
      = (Return (), snd (store_account xyz qirc True (stored abc123)))"
    using r by (simp add: store_account_def save_account_again [OF a])
  have 3: "fst (store_account xyz qirc True (stored abc123)) = Return ()"
    using 2 by (metis fst_conv)
  show ?thesis
    using store_account_overwrite [OF 1 2] 1 3 xyz_str(1,2,3) by blast
qed

text \<open>
  C8. Without a token, and with the empty token, \<^verbatim>\<open>get_token_authentication\<close> takes the
  token from \<^verbatim>\<open>load_account()\<close> with the default file; a token that is given and not empty
  is taken as it is, whatever it contains. The descriptor it returns carries that token
  and the scheme \<^verbatim>\<open>token\<close>, and it returns one whenever \<^verbatim>\<open>load_account\<close> returns.
\<close>

theorem get_token_authentication_resolves:
  "get_token_authentication None w
     = (case load_account (DEFAULT_QIRC_FILE w) w of
          Raise e \<Rightarrow> Raise e
        | Return tok \<Rightarrow>
            Return \<lparr>auth_token = tok, auth_scheme = ascii ''token'', auth_domain = None\<rparr>)
   \<and> get_token_authentication (Some []) w = get_token_authentication None w
   \<and> (t \<noteq> [] \<longrightarrow>
        get_token_authentication (Some t) w
          = Return \<lparr>auth_token = PStr t, auth_scheme = ascii ''token'', auth_domain = None\<rparr>)
   \<and> (get_token_authentication given w = Return d \<longrightarrow> auth_scheme d = ascii ''token'')"
  by (auto simp: get_token_authentication_def TokenAuthentication_def
      split: result.splits option.splits if_splits)

lemma default_stored: "DEFAULT_QIRC_FILE (stored T) = qirc"
  by (simp add: stored_def save_fresh DEFAULT_QIRC_FILE_def path_join_def)
    (simp add: fresh_def qirc_def ascii_def)

lemma environ_stored: "environ (stored T) = Map.empty"
  by (simp add: stored_def save_fresh) (simp add: fresh_def)

text \<open>
  With \<^verbatim>\<open>abc123\<close> in the default file and no environment variable, the descriptor carries
  \<^verbatim>\<open>abc123\<close>; a token that is given, here a quote and a line feed, is carried unchanged.
\<close>

theorem get_token_authentication_resolves_witness:
  "get_token_authentication None (stored abc123)
     = Return \<lparr>auth_token = PStr abc123, auth_scheme = ascii ''token'', auth_domain = None\<rparr>
   \<and> get_token_authentication (Some []) (stored abc123)
     = Return \<lparr>auth_token = PStr abc123, auth_scheme = ascii ''token'', auth_domain = None\<rparr>
   \<and> get_token_authentication (Some [34, 10]) (stored abc123)
     = Return \<lparr>auth_token = PStr [34, 10], auth_scheme = ascii ''token'', auth_domain = None\<rparr>
   \<and> get_token_authentication None fresh
     = Return \<lparr>auth_token = PNone, auth_scheme = ascii ''token'', auth_domain = None\<rparr>"
proof -
  have r: "read_account qirc (stored abc123) = Return (PStr abc123)"
    using read_stored [OF abc123_str(1,2)] abc123_str(3) by simp
  have l: "load_account (DEFAULT_QIRC_FILE (stored abc123)) (stored abc123) = Return (PStr abc123)"
    by (simp add: load_account_def default_stored environ_stored r)
  have f: "load_account (DEFAULT_QIRC_FILE fresh) fresh = Return PNone"
  proof -
    have "environ fresh (ascii ''QI_TOKEN'') = None"
      by (simp add: fresh_def)
    then show ?thesis
      by (simp add: load_account_def read_fresh)
  qed
  have n: "[34, 10] \<noteq> ([] :: pystr)"
    by simp
  show ?thesis
    using get_token_authentication_resolves [of "stored abc123" "[34, 10]"]
      get_token_authentication_resolves [of fresh] l f n
    by simp
qed

lemma files_stored: "files (stored T) qirc = Regular (document T)" "qirc \<notin> dirs (stored T)"
  by (simp_all add: stored_def save_fresh document_dumps qirc_dirname)
    (simp add: qirc_def ascii_def)

lemma read_stored_surrogates: "read_account qirc (stored surrogates) = Return (PStr [0x10000])"
  by (simp add: read_account_def read_account_try_def open_r_def json_load_def files_stored)
    (simp add: document_def surrogates_def eval_defs)

text \<open>
  C5 (as amended). \<^verbatim>\<open>delete_account(T, p)\<close> is \<^verbatim>\<open>save_account('', p)\<close> when
  \<^verbatim>\<open>read_account(p)\<close> returns \<open>T\<close>; when it returns anything else, the call returns normally
  and changes nothing. For a token \<open>T\<close> without a high surrogate directly before a low one:
  after \<^verbatim>\<open>save_account(T, p)\<close> has returned normally, \<^verbatim>\<open>delete_account(T, p)\<close> returns
  normally and \<^verbatim>\<open>read_account(p)\<close> then returns \<^verbatim>\<open>None\<close>; and \<^verbatim>\<open>delete_account(T2, p)\<close> with
  another token \<open>T2\<close> leaves the platform as it is, so the file still holds \<open>T\<close>.
\<close>

theorem delete_account_exact:
  "(read_account p w = Return (PStr T) \<longrightarrow> delete_account T p w = save_account [] p w)
   \<and> (read_account p w = Return v \<and> v \<noteq> PStr T \<longrightarrow> delete_account T p w = (Return (), w))
   \<and> (is_str T \<and> pair_free T \<and> save_account T p w = (Return (), w1) \<longrightarrow>
        fst (delete_account T p w1) = Return ()
        \<and> files (snd (delete_account T p w1)) p = Regular (document [])
        \<and> read_account p (snd (delete_account T p w1)) = Return PNone
        \<and> (T \<noteq> T2 \<longrightarrow> delete_account T2 p w1 = (Return (), w1)))"
proof -
  have 1: "read_account p w = Return (PStr T) \<longrightarrow> delete_account T p w = save_account [] p w"
    by (simp add: delete_account_def)
  have 2: "read_account p w = Return v \<and> v \<noteq> PStr T \<longrightarrow> delete_account T p w = (Return (), w)"
    by (simp add: delete_account_def)
  have 3: "fst (delete_account T p w1) = Return ()
        \<and> files (snd (delete_account T p w1)) p = Regular (document [])
        \<and> read_account p (snd (delete_account T p w1)) = Return PNone
        \<and> (T \<noteq> T2 \<longrightarrow> delete_account T2 p w1 = (Return (), w1))"
    if T: "is_str T" "pair_free T" and s: "save_account T p w = (Return (), w1)"
  proof -
    have r: "read_account p w1 = Return (if T = [] then PNone else PStr T)"
      using read_after_save [OF s T] .
    have f: "files w1 p = Regular (document T)"
      using save_account_document [OF s] by blast
    have other: "delete_account T2 p w1 = (Return (), w1)" if "T \<noteq> T2"
      using r that by (simp add: delete_account_def)
    show ?thesis
    proof (cases "T = []")
      case True
      then have "delete_account T p w1 = (Return (), w1)"
        using r by (simp add: delete_account_def)
      then show ?thesis
        using r f True other by simp
    next
      case False
      let ?w2 = "w1\<lparr>files := (files w1)(p := Regular (json_dumps [(ascii ''token'', [])] 2))\<rparr>"
      have e: "save_account [] p w1 = (Return (), ?w2)"
        using save_account_again [OF s] .
      have d: "delete_account T p w1 = (Return (), ?w2)"
        using r False e by (simp add: delete_account_def)
      have "read_account p ?w2 = Return PNone"
        using read_after_save [OF e] by (simp add: is_str_def)
      then show ?thesis
        unfolding d using other by (simp add: document_dumps)
    qed
  qed
  show ?thesis
    using 1 2 3 by blast
qed

text \<open>
  Saving \<^verbatim>\<open>abc123\<close> and deleting it leaves the document of the empty token, and nothing to
  read; deleting \<^verbatim>\<open>xyz\<close> instead changes nothing.
\<close>

theorem delete_account_exact_witness:
  "is_str abc123 \<and> pair_free abc123 \<and> save_account abc123 qirc fresh = (Return (), stored abc123)
   \<and> read_account qirc (stored abc123) = Return (PStr abc123)
   \<and> delete_account abc123 qirc (stored abc123) = save_account [] qirc (stored abc123)
   \<and> fst (delete_account abc123 qirc (stored abc123)) = Return ()
   \<and> files (snd (delete_account abc123 qirc (stored abc123))) qirc = Regular (document [])
   \<and> read_account qirc (snd (delete_account abc123 qirc (stored abc123))) = Return PNone
   \<and> abc123 \<noteq> xyz \<and> PStr abc123 \<noteq> PStr xyz
   \<and> delete_account xyz qirc (stored abc123) = (Return (), stored abc123)"
proof -
  have s: "save_account abc123 qirc fresh = (Return (), stored abc123)"
    by (simp add: stored_def save_fresh)
  have r: "read_account qirc (stored abc123) = Return (PStr abc123)"
    using read_stored [OF abc123_str(1,2)] abc123_str(3) by simp
  have n: "abc123 \<noteq> xyz" "PStr abc123 \<noteq> PStr xyz"
    using xyz_str(4) by simp_all
  note t = delete_account_exact [of qirc fresh abc123 "PStr abc123" "stored abc123" xyz]
  note u = delete_account_exact [of qirc "stored abc123" xyz "PStr abc123"]
  have a: "delete_account abc123 qirc (stored abc123) = save_account [] qirc (stored abc123)"
    using delete_account_exact [of qirc "stored abc123" abc123] r by blast
  have b: "fst (delete_account abc123 qirc (stored abc123)) = Return ()
        \<and> files (snd (delete_account abc123 qirc (stored abc123))) qirc = Regular (document [])
        \<and> read_account qirc (snd (delete_account abc123 qirc (stored abc123))) = Return PNone
        \<and> delete_account xyz qirc (stored abc123) = (Return (), stored abc123)"
    using t s abc123_str(1,2) n(1) by blast
  have c: "delete_account xyz qirc (stored abc123) = (Return (), stored abc123)"
    using u r n(2) by blast
  show ?thesis
    using abc123_str(1,2) s r a b c n by blast
qed

text \<open>
  The claim as it was stated fails for the token of the two code points \<^verbatim>\<open>U+D800\<close>,
  \<^verbatim>\<open>U+DC00\<close>. The file reads back as \<^verbatim>\<open>U+10000\<close>: deleting the token that was saved
  changes nothing and the file still has a token to read, and deleting the other token
  \<^verbatim>\<open>U+10000\<close> empties the file.
\<close>

theorem delete_account_exact_counterexample:
  "save_account surrogates qirc fresh = (Return (), stored surrogates)
   \<and> delete_account surrogates qirc (stored surrogates) = (Return (), stored surrogates)
   \<and> read_account qirc (snd (delete_account surrogates qirc (stored surrogates)))
       = Return (PStr [0x10000])
   \<and> read_account qirc (snd (delete_account surrogates qirc (stored surrogates))) \<noteq> Return PNone
   \<and> surrogates \<noteq> [0x10000]
   \<and> files (snd (delete_account [0x10000] qirc (stored surrogates))) qirc = Regular (document [])
   \<and> files (snd (delete_account [0x10000] qirc (stored surrogates))) qirc
       \<noteq> files (stored surrogates) qirc"
proof -
  have s: "save_account surrogates qirc fresh = (Return (), stored surrogates)"
    by (simp add: stored_def save_fresh)
  have d: "delete_account surrogates qirc (stored surrogates) = (Return (), stored surrogates)"
    by (simp add: delete_account_def read_stored_surrogates) (simp add: surrogates_def)
  have e: "delete_account [0x10000] qirc (stored surrogates)
      = (Return (), (stored surrogates)\<lparr>files := (files (stored surrogates))(qirc := Regular (json_dumps [(ascii ''token'', [])] 2))\<rparr>)"
    by (simp add: delete_account_def read_stored_surrogates save_account_again [OF s])
  have n: "document [] \<noteq> document surrogates"
    by (simp add: document_def encode_basestring_ascii_def surrogates_def escape_char_def)
  show ?thesis
    unfolding d e using s read_stored_surrogates n
    by (simp add: files_stored document_dumps surrogates_def)
qed

end
